theory Spec2Isabelle
  imports Main "HOL-Library.Word" "HOL-Library.Numeral_Type"
begin

section \<open>The TimeLockInheritance contract\<close>

text \<open>
  A shallow embedding of \<^verbatim>\<open>contracts/TimeLockInheritance.sol\<close>. Solidity's
  \<^verbatim>\<open>uint256\<close> is a 256-bit word and an \<^verbatim>\<open>address\<close> a 160-bit word. The
  contract is compiled with Solidity 0.8, whose \<^verbatim>\<open>+\<close> and \<^verbatim>\<open>-\<close> revert on
  overflow; the checked operations below return \<open>Panic\<close> there. A mapping is a total
  function whose unwritten entries hold the zero value of their type. A failed
  \<^verbatim>\<open>require\<close> reverts the whole call: every state-changing function returns either
  an error or the new state, and \<open>transact\<close> keeps the old state on an error.
  The FHE library and the account that receives a transfer are outside the contract:
  the environment of a call says what they answer. The getters that the compiler
  generates for the public state variables are not modelled.
\<close>

subsection \<open>Data\<close>

type_synonym uint256 = "256 word"
type_synonym address = "160 word"
type_synonym euint128 = "256 word"
type_synonym externalEuint128 = "256 word"
type_synonym bytes = "8 word list"

datatype UnlockMode = ONE_TIME | STAGED

record Vault =
  vault_id :: uint256
  creator :: address
  totalAmount :: uint256
  firstUnlockTime :: uint256
  stagesUnlocked :: uint256
  emergencyUnlocked :: bool
  isActive :: bool
  beneficiaryCount :: uint256
  unlockMode :: UnlockMode

record Beneficiary =
  encryptedAddress :: euint128
  encryptedAmount :: euint128
  totalClaimed :: uint256

datatype event =
    VaultCreated uint256 address uint256 uint256
  | StageUnlocked uint256 uint256 uint256
  | EmergencyUnlock uint256 uint256
  | InheritanceClaimed uint256 address uint256 uint256
  | BeneficiaryAdded uint256 uint256

text \<open>
  One constructor for each revert string of the contract, \<open>Panic\<close> for a checked
  arithmetic overflow and \<open>ProofRejected\<close> for a revert inside
  \<^verbatim>\<open>FHE.fromExternal\<close>.
\<close>

datatype error =
    MustDepositETH
  | UnlockTimeMustBeInFuture
  | MustHaveAtLeastOneBeneficiary
  | VaultDoesNotExist
  | VaultIsNotActive
  | NotVaultCreator
  | InvalidBeneficiaryIndex
  | BeneficiaryAlreadyAdded
  | AlreadyEmergencyUnlocked
  | NoStagesUnlockedYet
  | NotABeneficiary
  | NothingToClaim
  | TransferFailed
  | InvalidIndex
  | ProofRejected
  | Panic

text \<open>
  The storage of the contract, with its ether balance, the grants it has recorded in
  the FHE access-control list and the events it has emitted.
\<close>

record contract =
  vaults :: "uint256 \<Rightarrow> Vault"
  beneficiaries :: "uint256 \<Rightarrow> uint256 \<Rightarrow> Beneficiary"
  creatorVaults :: "address \<Rightarrow> uint256 list"
  beneficiaryVaults :: "address \<Rightarrow> uint256 list"
  vaultCount :: uint256
  balance :: nat
  allowed :: "(euint128 \<times> address) set"
  events :: "event list"

text \<open>
  What a call sees of its surroundings: the caller, the block's time, the contract's own
  address, the FHE library's input verification (\<open>None\<close> when it reverts) and whether
  the caller's account accepts an ether transfer.
\<close>

record env =
  msg_sender :: address
  block_timestamp :: uint256
  this_address :: address
  fromExternal :: "externalEuint128 \<Rightarrow> bytes \<Rightarrow> euint128 option"
  callee_accepts :: bool

definition UNLOCK_INTERVAL :: uint256 where
  "UNLOCK_INTERVAL = 365 * 86400"

definition TOTAL_STAGES :: uint256 where
  "TOTAL_STAGES = 4"

definition zeroVault :: Vault where
  "zeroVault = \<lparr>vault_id = 0, creator = 0, totalAmount = 0, firstUnlockTime = 0,
     stagesUnlocked = 0, emergencyUnlocked = False, isActive = False,
     beneficiaryCount = 0, unlockMode = ONE_TIME\<rparr>"

definition zeroBeneficiary :: Beneficiary where
  "zeroBeneficiary = \<lparr>encryptedAddress = 0, encryptedAmount = 0, totalClaimed = 0\<rparr>"

definition init :: contract where
  "init = \<lparr>vaults = (\<lambda>_. zeroVault), beneficiaries = (\<lambda>_ _. zeroBeneficiary),
     creatorVaults = (\<lambda>_. []), beneficiaryVaults = (\<lambda>_. []), vaultCount = 0,
     balance = 0, allowed = {}, events = []\<rparr>"

subsection \<open>Checked arithmetic\<close>

definition checked_add :: "uint256 \<Rightarrow> uint256 \<Rightarrow> error + uint256" where
  "checked_add a b = (if unat a + unat b < 2 ^ 256 then Inr (a + b) else Inl Panic)"

definition checked_sub :: "uint256 \<Rightarrow> uint256 \<Rightarrow> error + uint256" where
  "checked_sub a b = (if b \<le> a then Inr (a - b) else Inl Panic)"

definition checked_div :: "uint256 \<Rightarrow> uint256 \<Rightarrow> error + uint256" where
  "checked_div a b = (if b = 0 then Inl Panic else Inr (a div b))"

subsection \<open>Modifiers\<close>

definition vaultExists :: "uint256 \<Rightarrow> contract \<Rightarrow> error option" where
  "vaultExists vaultId s =
     (if \<not> (0 < vaultId \<and> vaultId \<le> vaultCount s) then Some VaultDoesNotExist
      else if \<not> isActive (vaults s vaultId) then Some VaultIsNotActive
      else None)"

definition onlyCreator :: "env \<Rightarrow> uint256 \<Rightarrow> contract \<Rightarrow> error option" where
  "onlyCreator e vaultId s =
     (if \<not> (creator (vaults s vaultId) = msg_sender e) then Some NotVaultCreator
      else None)"

text \<open>A call commits its new state when it returns and leaves the old one when it reverts.\<close>

definition transact :: "(contract \<Rightarrow> error + contract \<times> 'a) \<Rightarrow> contract \<Rightarrow> contract \<times> (error + 'a)" where
  "transact f s = (case f s of Inl err \<Rightarrow> (s, Inl err) | Inr (s', r) \<Rightarrow> (s', Inr r))"

subsection \<open>The stage calculator\<close>

text \<open>\<^verbatim>\<open>_getCurrentStage\<close> (an Isabelle name cannot start with an underscore).\<close>

definition getCurrentStage :: "env \<Rightarrow> uint256 \<Rightarrow> contract \<Rightarrow> error + uint256" where
  "getCurrentStage e vaultId s =
     (let vault = vaults s vaultId in
      if emergencyUnlocked vault then Inr TOTAL_STAGES
      else if block_timestamp e < firstUnlockTime vault then Inr 0
      else if unlockMode vault = ONE_TIME then Inr TOTAL_STAGES
      else
        (case checked_sub (block_timestamp e) (firstUnlockTime vault) of
           Inl err \<Rightarrow> Inl err
         | Inr timeElapsed \<Rightarrow>
             (case checked_div timeElapsed UNLOCK_INTERVAL of
                Inl err \<Rightarrow> Inl err
              | Inr q \<Rightarrow>
                  (case checked_add q 1 of
                     Inl err \<Rightarrow> Inl err
                   | Inr stage \<Rightarrow>
                       Inr (if TOTAL_STAGES < stage then TOTAL_STAGES else stage)))))"

text \<open>
  The stage calculator as the specification words it, on natural numbers: the time, the
  override flag, the first unlock time and the mode give the number of unlocked stages,
  with 4 stages and an interval of 365 days.
\<close>

definition spec_stage :: "nat \<Rightarrow> bool \<Rightarrow> nat \<Rightarrow> UnlockMode \<Rightarrow> nat" where
  "spec_stage now emergency first mode =
     (if emergency then 4
      else if now < first then 0
      else if mode = ONE_TIME then 4
      else min 4 ((now - first) div (365 * 24 * 60 * 60) + 1))"

subsection \<open>Creating a vault\<close>

text \<open>
  \<^verbatim>\<open>createVault\<close> is payable: \<open>msg_value\<close> is the ether sent with the call, which
  the contract's balance holds when the body runs.
\<close>

definition createVault ::
  "env \<Rightarrow> uint256 \<Rightarrow> uint256 \<Rightarrow> UnlockMode \<Rightarrow> uint256 \<Rightarrow> contract \<Rightarrow> error + contract \<times> uint256" where
  "createVault e msg_value firstUnlockTime' unlockMode' beneficiaryCount' s =
     (if \<not> 0 < msg_value then Inl MustDepositETH
      else if \<not> block_timestamp e < firstUnlockTime' then Inl UnlockTimeMustBeInFuture
      else if \<not> 0 < beneficiaryCount' then Inl MustHaveAtLeastOneBeneficiary
      else
        (case checked_add (vaultCount s) 1 of
           Inl err \<Rightarrow> Inl err
         | Inr n \<Rightarrow>
             Inr (s\<lparr>balance := balance s + unat msg_value,
                    vaultCount := n,
                    vaults := (vaults s)(n :=
                      \<lparr>vault_id = n, creator = msg_sender e, totalAmount = msg_value,
                       firstUnlockTime = firstUnlockTime', stagesUnlocked = 0,
                       emergencyUnlocked = False, isActive = True,
                       beneficiaryCount = beneficiaryCount', unlockMode = unlockMode'\<rparr>),
                    creatorVaults := (creatorVaults s)(msg_sender e :=
                      creatorVaults s (msg_sender e) @ [n]),
                    events := events s @
                      [VaultCreated n (msg_sender e) msg_value firstUnlockTime']\<rparr>, n)))"

subsection \<open>Writing a beneficiary slot\<close>

definition addBeneficiary ::
  "env \<Rightarrow> uint256 \<Rightarrow> uint256 \<Rightarrow> externalEuint128 \<Rightarrow> externalEuint128 \<Rightarrow> bytes \<Rightarrow> bytes
     \<Rightarrow> contract \<Rightarrow> error + contract \<times> unit" where
  "addBeneficiary e vaultId beneficiaryIndex encryptedAddress' encryptedAmount'
       addressProof amountProof s =
     (case vaultExists vaultId s of Some err \<Rightarrow> Inl err | None \<Rightarrow>
      case onlyCreator e vaultId s of Some err \<Rightarrow> Inl err | None \<Rightarrow>
      if \<not> beneficiaryIndex < beneficiaryCount (vaults s vaultId)
        then Inl InvalidBeneficiaryIndex
      else if \<not> totalClaimed (beneficiaries s vaultId beneficiaryIndex) = 0
        then Inl BeneficiaryAlreadyAdded
      else
        (case fromExternal e encryptedAddress' addressProof of
           None \<Rightarrow> Inl ProofRejected
         | Some encAddr \<Rightarrow>
             (case fromExternal e encryptedAmount' amountProof of
                None \<Rightarrow> Inl ProofRejected
              | Some encAmount \<Rightarrow>
                  Inr (s\<lparr>beneficiaries := (beneficiaries s)(vaultId :=
                           (beneficiaries s vaultId)(beneficiaryIndex :=
                             \<lparr>encryptedAddress = encAddr, encryptedAmount = encAmount,
                              totalClaimed = 0\<rparr>)),
                         allowed := allowed s \<union>
                           {(encAddr, this_address e), (encAmount, this_address e),
                            (encAddr, msg_sender e), (encAmount, msg_sender e)},
                         events := events s @ [BeneficiaryAdded vaultId beneficiaryIndex]\<rparr>,
                       ()))))"

subsection \<open>Emergency unlock\<close>

definition emergencyUnlock :: "env \<Rightarrow> uint256 \<Rightarrow> contract \<Rightarrow> error + contract \<times> unit" where
  "emergencyUnlock e vaultId s =
     (case vaultExists vaultId s of Some err \<Rightarrow> Inl err | None \<Rightarrow>
      case onlyCreator e vaultId s of Some err \<Rightarrow> Inl err | None \<Rightarrow>
      if \<not> \<not> emergencyUnlocked (vaults s vaultId) then Inl AlreadyEmergencyUnlocked
      else
        Inr (s\<lparr>vaults := (vaults s)(vaultId :=
                 (vaults s vaultId)\<lparr>emergencyUnlocked := True,
                                     stagesUnlocked := TOTAL_STAGES\<rparr>),
               events := events s @ [EmergencyUnlock vaultId (block_timestamp e)]\<rparr>, ()))"

subsection \<open>Claiming\<close>

text \<open>\<^verbatim>\<open>_findBeneficiaryAndCalculateClaim\<close>: both of its returns are the source's.\<close>

definition findBeneficiaryAndCalculateClaim ::
  "env \<Rightarrow> uint256 \<Rightarrow> address \<Rightarrow> contract \<Rightarrow> error + bool \<times> uint256 \<times> uint256" where
  "findBeneficiaryAndCalculateClaim e vaultId beneficiaryAddr s =
     (case getCurrentStage e vaultId s of
        Inl err \<Rightarrow> Inl err
      | Inr currentStage \<Rightarrow>
          if currentStage = 0 then Inr (False, 0, 0)
          else Inr (False, 0, 0))"

text \<open>
  The loop of \<^verbatim>\<open>claimInheritance\<close> that emits one \<open>StageUnlocked\<close> event for each
  stage from \<open>i + 1\<close> to \<open>currentStage\<close>.
\<close>

function emitStageUnlocked ::
  "uint256 \<Rightarrow> uint256 \<Rightarrow> uint256 \<Rightarrow> uint256 \<Rightarrow> event list \<Rightarrow> error + event list" where
  "emitStageUnlocked vaultId timestamp i currentStage log =
     (if i < currentStage then
        (case checked_add i 1 of
           Inl err \<Rightarrow> Inl err
         | Inr j \<Rightarrow>
             emitStageUnlocked vaultId timestamp j currentStage
               (log @ [StageUnlocked vaultId j timestamp]))
      else Inr log)"
  by pat_completeness auto
termination
  apply (relation "measure (\<lambda>(vaultId, timestamp, i, currentStage, log). unat currentStage - unat i)")
   apply simp
  apply (auto simp: checked_add_def unat_word_ariths word_less_nat_alt split: if_splits)
  done

text \<open>The block of \<^verbatim>\<open>claimInheritance\<close> that stores the newly unlocked stages.\<close>

definition updateStages :: "env \<Rightarrow> uint256 \<Rightarrow> uint256 \<Rightarrow> contract \<Rightarrow> error + contract" where
  "updateStages e vaultId currentStage s =
     (if stagesUnlocked (vaults s vaultId) < currentStage
         \<and> \<not> emergencyUnlocked (vaults s vaultId) then
        (case emitStageUnlocked vaultId (block_timestamp e)
                (stagesUnlocked (vaults s vaultId)) currentStage (events s) of
           Inl err \<Rightarrow> Inl err
         | Inr log \<Rightarrow>
             Inr (s\<lparr>events := log,
                    vaults := (vaults s)(vaultId :=
                      (vaults s vaultId)\<lparr>stagesUnlocked := currentStage\<rparr>)\<rparr>))
      else Inr s)"

text \<open>
  The ether transfer \<^verbatim>\<open>msg.sender.call{value: claimableAmount}("")\<close> succeeds when
  the contract holds the amount and the caller's account accepts it.
\<close>

definition claimInheritance :: "env \<Rightarrow> uint256 \<Rightarrow> contract \<Rightarrow> error + contract \<times> unit" where
  "claimInheritance e vaultId s =
     (case vaultExists vaultId s of Some err \<Rightarrow> Inl err | None \<Rightarrow>
      case getCurrentStage e vaultId s of Inl err \<Rightarrow> Inl err | Inr currentStage \<Rightarrow>
      if \<not> 0 < currentStage then Inl NoStagesUnlockedYet
      else
      case updateStages e vaultId currentStage s of Inl err \<Rightarrow> Inl err | Inr s1 \<Rightarrow>
      case findBeneficiaryAndCalculateClaim e vaultId (msg_sender e) s1 of
        Inl err \<Rightarrow> Inl err
      | Inr (found, beneficiaryIndex, claimableAmount) \<Rightarrow>
          if \<not> found then Inl NotABeneficiary
          else if \<not> 0 < claimableAmount then Inl NothingToClaim
          else
            (case checked_add (totalClaimed (beneficiaries s1 vaultId beneficiaryIndex))
                    claimableAmount of
               Inl err \<Rightarrow> Inl err
             | Inr claimed \<Rightarrow>
                 (let s2 = s1\<lparr>beneficiaries := (beneficiaries s1)(vaultId :=
                             (beneficiaries s1 vaultId)(beneficiaryIndex :=
                               (beneficiaries s1 vaultId beneficiaryIndex)
                                 \<lparr>totalClaimed := claimed\<rparr>))\<rparr>
                  in if \<not> (callee_accepts e \<and> unat claimableAmount \<le> balance s2)
                     then Inl TransferFailed
                     else
                       (let s3 = s2\<lparr>balance := balance s2 - unat claimableAmount\<rparr>;
                            s4 = (if totalClaimed (beneficiaries s3 vaultId beneficiaryIndex)
                                       = claimableAmount
                                  then s3\<lparr>beneficiaryVaults :=
                                         (beneficiaryVaults s3)(msg_sender e :=
                                           beneficiaryVaults s3 (msg_sender e) @ [vaultId])\<rparr>
                                  else s3)
                        in Inr (s4\<lparr>events := events s4 @
                                   [InheritanceClaimed vaultId (msg_sender e) claimableAmount
                                      (stagesUnlocked (vaults s4 vaultId))]\<rparr>, ())))))"

subsection \<open>Views\<close>

definition checkInheritance :: "env \<Rightarrow> uint256 \<Rightarrow> contract \<Rightarrow> error + bool \<times> uint256 \<times> uint256" where
  "checkInheritance e vaultId s =
     (case vaultExists vaultId s of Some err \<Rightarrow> Inl err | None \<Rightarrow>
      case findBeneficiaryAndCalculateClaim e vaultId (msg_sender e) s of
        Inl err \<Rightarrow> Inl err
      | Inr (found, beneficiaryIndex, claimable) \<Rightarrow>
          if \<not> found then Inr (False, 0, 0)
          else (let total = 0 in Inr (True, claimable, total)))"

definition getVault :: "uint256 \<Rightarrow> contract \<Rightarrow> error + Vault" where
  "getVault vaultId s =
     (case vaultExists vaultId s of Some err \<Rightarrow> Inl err | None \<Rightarrow> Inr (vaults s vaultId))"

definition getCreatorVaults :: "address \<Rightarrow> contract \<Rightarrow> uint256 list" where
  "getCreatorVaults creator' s = creatorVaults s creator'"

definition getBeneficiaryVaults :: "address \<Rightarrow> contract \<Rightarrow> uint256 list" where
  "getBeneficiaryVaults beneficiary s = beneficiaryVaults s beneficiary"

definition getEncryptedBeneficiary ::
  "env \<Rightarrow> uint256 \<Rightarrow> uint256 \<Rightarrow> contract \<Rightarrow> error + euint128 \<times> euint128" where
  "getEncryptedBeneficiary e vaultId beneficiaryIndex s =
     (case vaultExists vaultId s of Some err \<Rightarrow> Inl err | None \<Rightarrow>
      case onlyCreator e vaultId s of Some err \<Rightarrow> Inl err | None \<Rightarrow>
      if \<not> beneficiaryIndex < beneficiaryCount (vaults s vaultId) then Inl InvalidIndex
      else (let ben = beneficiaries s vaultId beneficiaryIndex
            in Inr (encryptedAddress ben, encryptedAmount ben)))"

subsection \<open>Calls and reachable states\<close>

text \<open>The state-changing entry points of the contract, with their arguments.\<close>

datatype call =
    CreateVault uint256 uint256 UnlockMode uint256
  | AddBeneficiary uint256 uint256 externalEuint128 externalEuint128 bytes bytes
  | EmergencyUnlockCall uint256
  | ClaimInheritance uint256

fun exec :: "env \<Rightarrow> call \<Rightarrow> contract \<Rightarrow> contract" where
  "exec e (CreateVault v t m n) s = fst (transact (createVault e v t m n) s)"
| "exec e (AddBeneficiary vaultId i a b pa pb) s =
     fst (transact (addBeneficiary e vaultId i a b pa pb) s)"
| "exec e (EmergencyUnlockCall vaultId) s = fst (transact (emergencyUnlock e vaultId) s)"
| "exec e (ClaimInheritance vaultId) s = fst (transact (claimInheritance e vaultId) s)"

fun run :: "(env \<times> call) list \<Rightarrow> contract \<Rightarrow> contract" where
  "run [] s = s"
| "run ((e, c) # cs) s = run cs (exec e c s)"

inductive reachable :: "contract \<Rightarrow> bool" where
  reachable_init: "reachable init"
| reachable_exec: "reachable s \<Longrightarrow> reachable (exec e c s)"

subsection \<open>Example states\<close>

text \<open>
  Three accounts, an environment that accepts every encrypted input and every transfer,
  and the states of a short history: \<open>alice\<close> creates vault 1 with a deposit of 100,
  writes slot 0, and unlocks the vault. \<open>demo_staged\<close> is the same vault in mode
  \<open>STAGED\<close>; \<open>demo_inactive\<close> is the created vault with its \<open>isActive\<close> flag
  cleared, a state that no entry point produces.
\<close>

definition alice :: address where
  "alice = 0xA11CE"

definition bob :: address where
  "bob = 0xB0B"

definition carol :: address where
  "carol = 0xCA201"

definition demo_env :: "address \<Rightarrow> uint256 \<Rightarrow> env" where
  "demo_env a t = \<lparr>msg_sender = a, block_timestamp = t, this_address = 0xC0DE,
     fromExternal = (\<lambda>h p. Some h), callee_accepts = True\<rparr>"

definition demo_created :: contract where
  "demo_created = exec (demo_env alice 1000) (CreateVault 100 2000 ONE_TIME 2) init"

definition demo_staged :: contract where
  "demo_staged = exec (demo_env alice 1000) (CreateVault 100 2000 STAGED 2) init"

definition demo_written :: contract where
  "demo_written = exec (demo_env alice 1001) (AddBeneficiary 1 0 11 22 [] []) demo_created"

definition demo_unlocked :: contract where
  "demo_unlocked = exec (demo_env alice 1002) (EmergencyUnlockCall 1) demo_written"

definition demo_inactive :: contract where
  "demo_inactive = demo_created\<lparr>vaults := (vaults demo_created)(1 :=
      (vaults demo_created 1)\<lparr>isActive := False\<rparr>)\<rparr>"

section \<open>Helper facts\<close>

lemmas demo_defs = alice_def bob_def carol_def demo_env_def demo_created_def demo_staged_def
  demo_written_def init_def zeroVault_def zeroBeneficiary_def transact_def createVault_def
  addBeneficiary_def emergencyUnlock_def vaultExists_def onlyCreator_def checked_add_def
  TOTAL_STAGES_def

lemmas claim_defs = claimInheritance_def getCurrentStage_def updateStages_def
  findBeneficiaryAndCalculateClaim_def

subsection \<open>Arithmetic\<close>

lemma checked_add_Inr: "checked_add a b = Inr c \<Longrightarrow> unat c = unat a + unat b"
  by (auto simp: checked_add_def unat_word_ariths split: if_splits)

lemma unat_div_interval_Suc: "unat ((a::uint256) div 31536000) + 1 < 2 ^ 256"
proof -
  have "unat a < 2 ^ 256" using unsigned_less [of a] by simp
  then have "unat a div 31536000 + 1 < 2 ^ 256" by simp
  then show ?thesis by (simp add: unat_div)
qed

lemma getCurrentStage_value:
  "\<exists>c. getCurrentStage e vaultId s = Inr c \<and>
       unat c = spec_stage (unat (block_timestamp e)) (emergencyUnlocked (vaults s vaultId))
            (unat (firstUnlockTime (vaults s vaultId))) (unlockMode (vaults s vaultId))"
proof -
  let ?v = "vaults s vaultId"
  let ?now = "block_timestamp e"
  show ?thesis
  proof (cases "emergencyUnlocked ?v \<or> ?now < firstUnlockTime ?v \<or> unlockMode ?v = ONE_TIME")
    case True
    then show ?thesis
      by (auto simp: getCurrentStage_def spec_stage_def TOTAL_STAGES_def word_less_nat_alt)
  next
    case False
    then have le: "firstUnlockTime ?v \<le> ?now" by (simp add: not_less)
    let ?q = "(?now - firstUnlockTime ?v) div 31536000"
    have q: "unat ?q = (unat ?now - unat (firstUnlockTime ?v)) div 31536000"
      using le by (simp add: unat_div unat_sub)
    have no_ovf: "unat ?q + unat (1::uint256) < 2 ^ 256"
      using unat_div_interval_Suc [of "?now - firstUnlockTime ?v"] by simp
    then have sq: "unat (?q + 1) = unat ?q + 1"
      by (simp add: unat_word_ariths)
    have "getCurrentStage e vaultId s = Inr (if 4 < ?q + 1 then 4 else ?q + 1)"
      using False le no_ovf
      by (simp add: getCurrentStage_def Let_def checked_sub_def checked_div_def
          checked_add_def UNLOCK_INTERVAL_def TOTAL_STAGES_def)
    moreover have "unat (if 4 < ?q + 1 then 4 else ?q + 1) =
        min 4 ((unat ?now - unat (firstUnlockTime ?v)) div 31536000 + 1)"
      using sq q by (simp add: word_less_nat_alt min_def)
    ultimately show ?thesis
      using False by (simp add: spec_stage_def word_less_nat_alt)
  qed
qed

lemma unat_max_word: "unat (- 1 :: uint256) = 2 ^ 256 - 1"
  by (simp add: unsigned_minus_1_eq_mask mask_eq_exp_minus_1)

lemma unat_Suc_word:
  assumes "(a::uint256) \<noteq> - 1"
  shows "unat a + 1 < 2 ^ 256" and "unat (a + 1) = unat a + 1"
proof -
  from assms have "a < - 1" by (simp add: word_order.not_eq_extremum)
  then have "unat a < 2 ^ 256 - 1" by (simp add: word_less_nat_alt unat_max_word)
  then show "unat a + 1 < 2 ^ 256" by simp
  then show "unat (a + 1) = unat a + 1" by (simp add: unat_word_ariths)
qed

lemma checked_add_one:
  "checked_add a 1 = (if a = - 1 then Inl Panic else Inr (a + 1))"
proof (cases "a = - 1")
  case True
  then show ?thesis by (simp add: checked_add_def unat_max_word)
next
  case False
  from unat_Suc_word(1) [OF this] False show ?thesis by (simp add: checked_add_def)
qed

subsection \<open>The stage calculator and the matcher\<close>

lemma getCurrentStage_le:
  "getCurrentStage e vaultId s = Inr c \<Longrightarrow> c \<le> TOTAL_STAGES"
  by (auto simp: getCurrentStage_def Let_def checked_sub_def checked_div_def checked_add_def
      TOTAL_STAGES_def split: if_splits sum.splits)

lemma findBeneficiary_none:
  "findBeneficiaryAndCalculateClaim e vaultId a s = Inr (False, 0, 0)"
  using getCurrentStage_value [of e vaultId s]
  by (auto simp: findBeneficiaryAndCalculateClaim_def)

lemma claimInheritance_fails:
  "\<exists>err. claimInheritance e vaultId s = Inl err"
  by (simp add: claimInheritance_def findBeneficiary_none split: option.split sum.split)

lemma exec_claim: "exec e (ClaimInheritance vaultId) s = s"
  using claimInheritance_fails [of e vaultId s] by (auto simp: transact_def)

lemma emitStageUnlocked_Inr:
  "i \<le> n \<Longrightarrow> \<exists>log'. emitStageUnlocked v t i n log = Inr log'"
proof (induction v t i n log rule: emitStageUnlocked.induct)
  case (1 v t i n log)
  show ?case
  proof (cases "i < n")
    case True
    then have lt: "unat i < unat n" by (simp add: word_less_nat_alt)
    have "unat n < 2 ^ 256" using unsigned_less [of n] by simp
    with lt have ok: "unat i + unat (1::uint256) < 2 ^ 256" by simp
    then have ca: "checked_add i 1 = Inr (i + 1)" by (simp add: checked_add_def)
    have "unat (i + 1) = unat i + 1" using ok by (simp add: unat_word_ariths)
    with lt have "i + 1 \<le> n" by (simp add: word_le_nat_alt)
    with "1.IH" [OF True ca] obtain log' where
      "emitStageUnlocked v t (i + 1) n (log @ [StageUnlocked v (i + 1) t]) = Inr log'" by blast
    with True ca show ?thesis by simp
  next
    case False
    then show ?thesis by simp
  qed
qed

lemma updateStages_Inr:
  assumes "c \<le> TOTAL_STAGES"
  shows "\<exists>s1. updateStages e vaultId c s = Inr s1 \<and>
     stagesUnlocked (vaults s w) \<le> stagesUnlocked (vaults s1 w) \<and>
     (stagesUnlocked (vaults s w) \<le> TOTAL_STAGES \<longrightarrow> stagesUnlocked (vaults s1 w) \<le> TOTAL_STAGES)"
proof (cases "stagesUnlocked (vaults s vaultId) < c \<and> \<not> emergencyUnlocked (vaults s vaultId)")
  case True
  then have "stagesUnlocked (vaults s vaultId) \<le> c" by (simp add: less_imp_le)
  from emitStageUnlocked_Inr [OF this] obtain log' where
    "emitStageUnlocked vaultId (block_timestamp e) (stagesUnlocked (vaults s vaultId)) c (events s) = Inr log'"
    by blast
  with True assms show ?thesis by (auto simp: updateStages_def)
next
  case False
  then show ?thesis by (auto simp: updateStages_def)
qed

lemma vaultExists_None_iff:
  "vaultExists v s = None \<longleftrightarrow> 0 < v \<and> v \<le> vaultCount s \<and> isActive (vaults s v)"
  by (auto simp: vaultExists_def)

lemma claimInheritance_positive_stage:
  assumes "vaultExists vaultId s = None" and "getCurrentStage e vaultId s = Inr c" and "0 < c"
  shows "claimInheritance e vaultId s = Inl NotABeneficiary"
proof -
  have "c \<le> TOTAL_STAGES" using assms(2) by (rule getCurrentStage_le)
  from updateStages_Inr [OF this, of e vaultId s vaultId] obtain s1 where
    "updateStages e vaultId c s = Inr s1" by blast
  with assms show ?thesis
    by (simp add: claimInheritance_def findBeneficiary_none)
qed

lemma getCurrentStage_zero_iff:
  "getCurrentStage e vaultId s = Inr 0 \<longleftrightarrow>
     \<not> emergencyUnlocked (vaults s vaultId) \<and>
     block_timestamp e < firstUnlockTime (vaults s vaultId)"
proof -
  obtain c where c: "getCurrentStage e vaultId s = Inr c"
    and u: "unat c = spec_stage (unat (block_timestamp e)) (emergencyUnlocked (vaults s vaultId))
            (unat (firstUnlockTime (vaults s vaultId))) (unlockMode (vaults s vaultId))"
    using getCurrentStage_value [of e vaultId s] by blast
  have "c = 0 \<longleftrightarrow> unat c = 0" by (simp add: word_unat_eq_iff)
  also have "\<dots> \<longleftrightarrow> \<not> emergencyUnlocked (vaults s vaultId) \<and>
      block_timestamp e < firstUnlockTime (vaults s vaultId)"
    unfolding u by (simp add: spec_stage_def word_less_nat_alt)
  finally show ?thesis using c by simp
qed

subsection \<open>What a successful call changes\<close>

lemma createVault_Inr:
  "createVault e v t m n s = Inr (s', r) \<Longrightarrow>
     unat r = unat (vaultCount s) + 1 \<and> vaultCount s' = r \<and>
     vaults s' = (vaults s)(r := \<lparr>vault_id = r, creator = msg_sender e, totalAmount = v,
         firstUnlockTime = t, stagesUnlocked = 0, emergencyUnlocked = False, isActive = True,
         beneficiaryCount = n, unlockMode = m\<rparr>) \<and>
     beneficiaries s' = beneficiaries s \<and> balance s' = balance s + unat v"
  by (auto simp: createVault_def split: if_splits sum.splits dest: checked_add_Inr)

lemma addBeneficiary_Inr:
  "addBeneficiary e vaultId i a b pa pb s = Inr (s', r) \<Longrightarrow>
     vaults s' = vaults s \<and> vaultCount s' = vaultCount s \<and> balance s' = balance s \<and>
     (\<forall>w j. totalClaimed (beneficiaries s' w j) =
        (if w = vaultId \<and> j = i then 0 else totalClaimed (beneficiaries s w j)))"
  by (auto simp: addBeneficiary_def split: if_splits option.splits)

lemma emergencyUnlock_Inr:
  "emergencyUnlock e vaultId s = Inr (s', r) \<Longrightarrow>
     vaultExists vaultId s = None \<and> creator (vaults s vaultId) = msg_sender e \<and>
     \<not> emergencyUnlocked (vaults s vaultId) \<and>
     vaults s' = (vaults s)(vaultId := (vaults s vaultId)\<lparr>emergencyUnlocked := True,
                                     stagesUnlocked := TOTAL_STAGES\<rparr>) \<and>
     vaultCount s' = vaultCount s \<and> beneficiaries s' = beneficiaries s \<and>
     balance s' = balance s"
  by (auto simp: emergencyUnlock_def onlyCreator_def split: if_splits option.splits)

lemma exec_cases:
  "exec e c s = s \<or>
   (\<exists>v t m n r. c = CreateVault v t m n \<and> createVault e v t m n s = Inr (exec e c s, r)) \<or>
   (\<exists>vaultId i a b pa pb. c = AddBeneficiary vaultId i a b pa pb \<and>
       addBeneficiary e vaultId i a b pa pb s = Inr (exec e c s, ())) \<or>
   (\<exists>vaultId. c = EmergencyUnlockCall vaultId \<and>
       emergencyUnlock e vaultId s = Inr (exec e c s, ()))"
proof (cases c)
  case (ClaimInheritance vaultId)
  then show ?thesis by (simp only: exec_claim) simp
qed (auto simp: transact_def split: sum.splits)

lemma transact_Inr: "snd (transact f s) = Inr r \<Longrightarrow> f s = Inr (fst (transact f s), r)"
  by (auto simp: transact_def split: sum.splits)

subsection \<open>Invariants of the reachable states\<close>

lemma reachable_unassigned:
  "reachable s \<Longrightarrow> vaultCount s < v \<Longrightarrow> vaults s v = zeroVault"
proof (induction arbitrary: v rule: reachable.induct)
  case reachable_init
  then show ?case by (simp add: init_def)
next
  case (reachable_exec s e c)
  from exec_cases [of e c s] show ?case
  proof (elim disjE exE conjE)
    assume "exec e c s = s"
    with reachable_exec show ?thesis by simp
  next
    fix a t m n r
    assume "createVault e a t m n s = Inr (exec e c s, r)"
    from createVault_Inr [OF this] reachable_exec.prems reachable_exec.IH [of v]
    show ?thesis by (auto simp: word_less_nat_alt)
  next
    fix vaultId i a b pa pb
    assume "addBeneficiary e vaultId i a b pa pb s = Inr (exec e c s, ())"
    from addBeneficiary_Inr [OF this] reachable_exec.prems reachable_exec.IH [of v]
    show ?thesis by simp
  next
    fix vaultId
    assume "emergencyUnlock e vaultId s = Inr (exec e c s, ())"
    from emergencyUnlock_Inr [OF this] reachable_exec.prems reachable_exec.IH [of v]
    show ?thesis by (auto simp: vaultExists_def split: if_splits)
  qed
qed

lemma reachable_stagesUnlocked_le:
  "reachable s \<Longrightarrow> stagesUnlocked (vaults s v) \<le> TOTAL_STAGES"
proof (induction rule: reachable.induct)
  case reachable_init
  then show ?case by (simp add: init_def zeroVault_def)
next
  case (reachable_exec s e c)
  from exec_cases [of e c s] show ?case
  proof (elim disjE exE conjE)
    assume "exec e c s = s"
    with reachable_exec show ?thesis by simp
  next
    fix a t m n r
    assume "createVault e a t m n s = Inr (exec e c s, r)"
    from createVault_Inr [OF this] reachable_exec.IH show ?thesis by simp
  next
    fix vaultId i a b pa pb
    assume "addBeneficiary e vaultId i a b pa pb s = Inr (exec e c s, ())"
    from addBeneficiary_Inr [OF this] reachable_exec.IH show ?thesis by simp
  next
    fix vaultId
    assume "emergencyUnlock e vaultId s = Inr (exec e c s, ())"
    from emergencyUnlock_Inr [OF this] reachable_exec.IH show ?thesis by simp
  qed
qed

lemma exec_stagesUnlocked_mono:
  assumes "reachable s"
  shows "stagesUnlocked (vaults s v) \<le> stagesUnlocked (vaults (exec e c s) v)"
  using exec_cases [of e c s]
proof (elim disjE exE conjE)
  assume "exec e c s = s"
  then show ?thesis by simp
next
  fix a t m n r
  assume cv: "createVault e a t m n s = Inr (exec e c s, r)"
  from createVault_Inr [OF cv] have "vaultCount s < r" by (simp add: word_less_nat_alt)
  from reachable_unassigned [OF assms this] createVault_Inr [OF cv]
  show ?thesis by (simp add: zeroVault_def)
next
  fix vaultId i a b pa pb
  assume "addBeneficiary e vaultId i a b pa pb s = Inr (exec e c s, ())"
  from addBeneficiary_Inr [OF this] show ?thesis by simp
next
  fix vaultId
  assume "emergencyUnlock e vaultId s = Inr (exec e c s, ())"
  from emergencyUnlock_Inr [OF this] reachable_stagesUnlocked_le [OF assms, of v]
  show ?thesis by auto
qed

lemma reachable_run: "reachable s \<Longrightarrow> reachable (run cs s)"
proof (induction cs arbitrary: s)
  case Nil
  then show ?case by simp
next
  case (Cons x cs)
  obtain e c where "x = (e, c)" by (cases x)
  with Cons.IH [OF reachable_exec [OF Cons.prems, of e c]] show ?case by simp
qed

lemma reachable_unlocked:
  "reachable s \<Longrightarrow> stagesUnlocked (vaults s v) \<noteq> 0 \<Longrightarrow>
     emergencyUnlocked (vaults s v) \<and> vaultExists v s = None"
proof (induction rule: reachable.induct)
  case reachable_init
  then show ?case by (simp add: init_def zeroVault_def)
next
  case (reachable_exec s e c)
  from exec_cases [of e c s] show ?case
  proof (elim disjE exE conjE)
    assume "exec e c s = s"
    with reachable_exec show ?thesis by simp
  next
    fix a t m n r
    assume "createVault e a t m n s = Inr (exec e c s, r)"
    from createVault_Inr [OF this] reachable_exec.prems reachable_exec.IH
    show ?thesis
      by (auto simp: vaultExists_None_iff word_le_nat_alt)
  next
    fix vaultId i a b pa pb
    assume "addBeneficiary e vaultId i a b pa pb s = Inr (exec e c s, ())"
    from addBeneficiary_Inr [OF this] reachable_exec.prems reachable_exec.IH
    show ?thesis by (simp add: vaultExists_None_iff)
  next
    fix vaultId
    assume "emergencyUnlock e vaultId s = Inr (exec e c s, ())"
    from emergencyUnlock_Inr [OF this] reachable_exec.prems reachable_exec.IH
    show ?thesis by (auto simp: vaultExists_None_iff)
  qed
qed

lemma reachable_totalClaimed:
  "reachable s \<Longrightarrow> totalClaimed (beneficiaries s v i) = 0"
proof (induction rule: reachable.induct)
  case reachable_init
  then show ?case by (simp add: init_def zeroBeneficiary_def)
next
  case (reachable_exec s e c)
  from exec_cases [of e c s] show ?case
  proof (elim disjE exE conjE)
    assume "exec e c s = s"
    with reachable_exec show ?thesis by simp
  next
    fix a t m n r
    assume "createVault e a t m n s = Inr (exec e c s, r)"
    from createVault_Inr [OF this] reachable_exec.IH show ?thesis by simp
  next
    fix vaultId j a b pa pb
    assume "addBeneficiary e vaultId j a b pa pb s = Inr (exec e c s, ())"
    from addBeneficiary_Inr [OF this] reachable_exec.IH show ?thesis by simp
  next
    fix vaultId
    assume "emergencyUnlock e vaultId s = Inr (exec e c s, ())"
    from emergencyUnlock_Inr [OF this] reachable_exec.IH show ?thesis by simp
  qed
qed

lemma exec_balance_mono: "balance s \<le> balance (exec e c s)"
  using exec_cases [of e c s]
  by (auto dest: createVault_Inr addBeneficiary_Inr emergencyUnlock_Inr)

lemma exec_keeps_unlocked:
  assumes "vaultExists vid s = None" and "emergencyUnlocked (vaults s vid)"
  shows "vaultExists vid (exec e c s) = None \<and> emergencyUnlocked (vaults (exec e c s) vid) \<and>
         creator (vaults (exec e c s) vid) = creator (vaults s vid)"
  using exec_cases [of e c s]
proof (elim disjE exE conjE)
  assume "exec e c s = s"
  with assms show ?thesis by simp
next
  fix a t m n r
  assume "createVault e a t m n s = Inr (exec e c s, r)"
  from createVault_Inr [OF this] assms show ?thesis
    by (auto simp: vaultExists_None_iff word_le_nat_alt)
next
  fix vaultId i a b pa pb
  assume "addBeneficiary e vaultId i a b pa pb s = Inr (exec e c s, ())"
  from addBeneficiary_Inr [OF this] assms show ?thesis by (simp add: vaultExists_None_iff)
next
  fix vaultId
  assume "emergencyUnlock e vaultId s = Inr (exec e c s, ())"
  from emergencyUnlock_Inr [OF this] assms show ?thesis
    by (auto simp: vaultExists_None_iff)
qed

lemma run_keeps_unlocked:
  "vaultExists vid s = None \<Longrightarrow> emergencyUnlocked (vaults s vid) \<Longrightarrow>
     vaultExists vid (run cs s) = None \<and> emergencyUnlocked (vaults (run cs s) vid) \<and>
     creator (vaults (run cs s) vid) = creator (vaults s vid)"
proof (induction cs arbitrary: s)
  case Nil
  then show ?case by simp
next
  case (Cons x cs)
  obtain e c where x: "x = (e, c)" by (cases x)
  from exec_keeps_unlocked [OF Cons.prems, of e c]
  have k: "vaultExists vid (exec e c s) = None" "emergencyUnlocked (vaults (exec e c s) vid)"
    "creator (vaults (exec e c s) vid) = creator (vaults s vid)" by simp_all
  from Cons.IH [OF k(1) k(2)] k(3) show ?case by (simp add: x)
qed

lemma reachable_demo_unlocked: "reachable demo_unlocked"
  unfolding demo_unlocked_def demo_written_def demo_created_def
  by (intro reachable.intros)

section \<open>Properties\<close>

subsection \<open>C1: what a successful claim pays\<close>

text \<open>
  C1. A claimant whose identity is in a written slot is to be paid
  \<open>matchedEntitlement * S / TOTAL_STAGES - matchedAlreadyClaimed\<close>, and the slot's
  claimed amount is to grow by the payment. The contract does not pay: its matching
  function is a placeholder that finds nobody. In \<open>demo_written\<close> the vault holds 100,
  slot 0 is written, the vault is in mode \<open>ONE_TIME\<close> and the time 3000 is past
  its unlock time 2000, so all 4 stages are unlocked; the claim of \<open>bob\<close>, whoever the
  slot's ciphertext names, reverts with "Not a beneficiary" and the 100 stay in the
  contract.
\<close>

theorem claimInheritance_rejects_written_beneficiary:
  "getCurrentStage (demo_env bob 3000) 1 demo_written = Inr 4 \<and>
   balance demo_written = 100 \<and>
   snd (transact (claimInheritance (demo_env bob 3000) 1) demo_written) = Inl NotABeneficiary \<and>
   balance (fst (transact (claimInheritance (demo_env bob 3000) 1) demo_written)) = 100"
  by (simp add: demo_defs claim_defs)

subsection \<open>C2: the stage calculator\<close>

text \<open>
  C2. For every vault and every time the stage calculator returns (it never reverts):
  4 if the vault is emergency-unlocked, else 0 before \<open>firstUnlockTime\<close>, else 4 in
  mode \<open>ONE_TIME\<close>, else the minimum of 4 and
  \<open>(now - firstUnlockTime) div (365 days) + 1\<close>. The value read as a natural number is
  the specification's, so no step of the 256-bit arithmetic wraps around.
\<close>

theorem getCurrentStage_spec:
  "map_sum id unat (getCurrentStage e vaultId s) =
     Inr (spec_stage (unat (block_timestamp e)) (emergencyUnlocked (vaults s vaultId))
            (unat (firstUnlockTime (vaults s vaultId))) (unlockMode (vaults s vaultId)))"
proof -
  obtain c where "getCurrentStage e vaultId s = Inr c"
    and "unat c = spec_stage (unat (block_timestamp e)) (emergencyUnlocked (vaults s vaultId))
            (unat (firstUnlockTime (vaults s vaultId))) (unlockMode (vaults s vaultId))"
    using getCurrentStage_value [of e vaultId s] by blast
  then show ?thesis by simp
qed

text \<open>
  In the staged vault, whose first unlock time is 2000: one second before it no stage is
  unlocked, 365 days after it two stages are, and after ten years all four.
\<close>

theorem getCurrentStage_spec_witness:
  "map_sum id unat (getCurrentStage (demo_env bob 1999) 1 demo_staged) = Inr 0 \<and>
   map_sum id unat (getCurrentStage (demo_env bob 31538000) 1 demo_staged) = Inr 2 \<and>
   map_sum id unat (getCurrentStage (demo_env bob 315362000) 1 demo_staged) = Inr 4"
proof -
  have v: "emergencyUnlocked (vaults demo_staged 1) = False"
    "firstUnlockTime (vaults demo_staged 1) = 2000"
    "unlockMode (vaults demo_staged 1) = STAGED"
    by (simp_all add: demo_defs)
  from getCurrentStage_spec [of "demo_env bob 1999" 1 demo_staged]
    getCurrentStage_spec [of "demo_env bob 31538000" 1 demo_staged]
    getCurrentStage_spec [of "demo_env bob 315362000" 1 demo_staged]
  show ?thesis by (simp add: v demo_env_def spec_stage_def)
qed

subsection \<open>C3: writing a slot twice\<close>

text \<open>
  C3. A written slot is to reject a second write and keep its ciphertexts. The
  contract's guard "Beneficiary already added" tests \<open>totalClaimed = 0\<close>, which a
  written slot still satisfies: in \<open>demo_written\<close> slot 0 of vault 1 holds the
  ciphertexts 11 and 22, and the creator's second \<open>addBeneficiary\<close> on the same slot
  returns and replaces them by 33 and 44.
\<close>

theorem addBeneficiary_overwrites_written_slot:
  "encryptedAddress (beneficiaries demo_written 1 0) = 11 \<and>
   encryptedAmount (beneficiaries demo_written 1 0) = 22 \<and>
   snd (transact (addBeneficiary (demo_env alice 1002) 1 0 33 44 [] []) demo_written) = Inr () \<and>
   encryptedAddress (beneficiaries
     (fst (transact (addBeneficiary (demo_env alice 1002) 1 0 33 44 [] []) demo_written)) 1 0) = 33 \<and>
   encryptedAmount (beneficiaries
     (fst (transact (addBeneficiary (demo_env alice 1002) 1 0 33 44 [] []) demo_written)) 1 0) = 44"
  by (simp add: demo_defs)

text \<open>
  The guard never fires: in no reachable state does \<open>addBeneficiary\<close> fail with
  "Beneficiary already added", since no slot's \<open>totalClaimed\<close> ever leaves 0.
\<close>

lemma addBeneficiary_guard_is_dead:
  "reachable s \<Longrightarrow> addBeneficiary e vaultId i a b pa pb s \<noteq> Inl BeneficiaryAlreadyAdded"
  by (auto simp: addBeneficiary_def onlyCreator_def vaultExists_def reachable_totalClaimed
      split: option.splits if_splits)

subsection \<open>C4: the unlocked stages only grow\<close>

text \<open>
  C4. From every reachable state and along every sequence of calls (vault creations,
  slot writes, emergency unlocks and claims, by any callers at any times), the
  \<open>stagesUnlocked\<close> of every vault id never decreases and never exceeds
  \<open>TOTAL_STAGES\<close>.
\<close>

theorem stagesUnlocked_monotone_bounded:
  assumes "reachable s"
  shows "stagesUnlocked (vaults s v) \<le> stagesUnlocked (vaults (run cs s) v) \<and>
         stagesUnlocked (vaults (run cs s) v) \<le> TOTAL_STAGES"
proof
  show "stagesUnlocked (vaults s v) \<le> stagesUnlocked (vaults (run cs s) v)"
    using assms
  proof (induction cs arbitrary: s)
    case Nil
    then show ?case by simp
  next
    case (Cons x cs)
    obtain e c where x: "x = (e, c)" by (cases x)
    have "stagesUnlocked (vaults s v) \<le> stagesUnlocked (vaults (exec e c s) v)"
      by (rule exec_stagesUnlocked_mono [OF Cons.prems])
    also have "\<dots> \<le> stagesUnlocked (vaults (run cs (exec e c s)) v)"
      by (rule Cons.IH [OF reachable_exec [OF Cons.prems]])
    finally show ?case by (simp add: x)
  qed
  show "stagesUnlocked (vaults (run cs s) v) \<le> TOTAL_STAGES"
    by (rule reachable_stagesUnlocked_le [OF reachable_run [OF assms]])
qed

text \<open>From the written vault, an emergency unlock and a claim take vault 1 from 0 to 4.\<close>

theorem stagesUnlocked_monotone_bounded_witness:
  "reachable demo_written \<and>
   stagesUnlocked (vaults demo_written 1) = 0 \<and>
   stagesUnlocked (vaults (run [(demo_env alice 1002, EmergencyUnlockCall 1),
        (demo_env bob 3000, ClaimInheritance 1)] demo_written) 1) = 4 \<and>
   stagesUnlocked (vaults demo_written 1) \<le>
     stagesUnlocked (vaults (run [(demo_env alice 1002, EmergencyUnlockCall 1),
        (demo_env bob 3000, ClaimInheritance 1)] demo_written) 1) \<and>
   stagesUnlocked (vaults (run [(demo_env alice 1002, EmergencyUnlockCall 1),
        (demo_env bob 3000, ClaimInheritance 1)] demo_written) 1) \<le> TOTAL_STAGES"
proof -
  have r: "reachable demo_written"
    unfolding demo_written_def demo_created_def by (intro reachable.intros)
  have a: "stagesUnlocked (vaults demo_written 1) = 0"
    by (simp add: demo_defs)
  have b: "stagesUnlocked (vaults (run [(demo_env alice 1002, EmergencyUnlockCall 1),
        (demo_env bob 3000, ClaimInheritance 1)] demo_written) 1) = 4"
  proof -
    have "run [(demo_env alice 1002, EmergencyUnlockCall 1),
        (demo_env bob 3000, ClaimInheritance 1)] demo_written = demo_unlocked"
      by (simp only: run.simps exec_claim demo_unlocked_def)
    then show ?thesis by (simp add: demo_defs demo_unlocked_def)
  qed
  from stagesUnlocked_monotone_bounded [OF r] r a b show ?thesis by blast
qed

subsection \<open>C5: a claim by somebody who is no beneficiary\<close>

text \<open>
  C5, as amended. In every reachable state, for every vault with
  \<open>stagesUnlocked > 0\<close> and every claimant, so for every claimant whose identity is in
  no written slot, the claim finds no match and reverts with "Not a beneficiary": nothing
  is transferred and the state is as before. (The contract has a revert of its own
  for a caller that is not found, which comes before "Nothing to claim".)
\<close>

theorem claim_by_non_beneficiary:
  assumes "reachable s" and "0 < stagesUnlocked (vaults s vaultId)"
  shows "transact (claimInheritance e vaultId) s = (s, Inl NotABeneficiary)"
proof -
  from assms(2) have "stagesUnlocked (vaults s vaultId) \<noteq> 0" by auto
  from reachable_unlocked [OF assms(1) this]
  have u: "emergencyUnlocked (vaults s vaultId)" and x: "vaultExists vaultId s = None" by simp_all
  from u have "getCurrentStage e vaultId s = Inr TOTAL_STAGES"
    by (simp add: getCurrentStage_def)
  from claimInheritance_positive_stage [OF x this]
  show ?thesis by (simp add: transact_def TOTAL_STAGES_def)
qed

theorem claim_by_non_beneficiary_witness:
  "reachable demo_unlocked \<and> 0 < stagesUnlocked (vaults demo_unlocked 1) \<and>
   transact (claimInheritance (demo_env carol 1003) 1) demo_unlocked =
     (demo_unlocked, Inl NotABeneficiary)"
proof -
  have p: "0 < stagesUnlocked (vaults demo_unlocked 1)"
    by (simp add: demo_defs demo_unlocked_def)
  from claim_by_non_beneficiary [OF reachable_demo_unlocked p] reachable_demo_unlocked p
  show ?thesis by blast
qed

text \<open>
  The claim as first stated fails: in the unlocked vault, whose \<open>stagesUnlocked\<close> is
  4, the claim of \<open>carol\<close> does not end in "Nothing to claim".
\<close>

theorem claim_by_stranger_counterexample:
  "0 < stagesUnlocked (vaults demo_unlocked 1) \<and>
   snd (transact (claimInheritance (demo_env carol 1003) 1) demo_unlocked) = Inl NotABeneficiary \<and>
   snd (transact (claimInheritance (demo_env carol 1003) 1) demo_unlocked) \<noteq> Inl NothingToClaim"
  by (simp add: demo_defs demo_unlocked_def claim_defs)

subsection \<open>C6: creating a vault\<close>

text \<open>
  C6, as amended. \<open>createVault\<close> makes its checks in order and fails with the first
  that applies: "Must deposit ETH" exactly when the deposit is 0; "Unlock time must be
  in future" exactly when the deposit is positive and \<open>firstUnlockTime\<close> is not after
  the block's time; "Must have at least one beneficiary" exactly when both hold and the
  slot count is 0; an arithmetic panic exactly when the three checks pass and the vault
  counter is at its maximum. Otherwise it returns \<open>vaultCount + 1\<close>, an id above every
  assigned one, and the new vault has that id, \<open>stagesUnlocked = 0\<close>,
  \<open>emergencyUnlocked = False\<close> and \<open>isActive = True\<close>.
\<close>

theorem createVault_outcome:
  "(createVault e v t m n s = Inl MustDepositETH \<longleftrightarrow> v = 0) \<and>
   (createVault e v t m n s = Inl UnlockTimeMustBeInFuture \<longleftrightarrow>
      v \<noteq> 0 \<and> t \<le> block_timestamp e) \<and>
   (createVault e v t m n s = Inl MustHaveAtLeastOneBeneficiary \<longleftrightarrow>
      v \<noteq> 0 \<and> block_timestamp e < t \<and> n = 0) \<and>
   (createVault e v t m n s = Inl Panic \<longleftrightarrow>
      v \<noteq> 0 \<and> block_timestamp e < t \<and> n \<noteq> 0 \<and> vaultCount s = - 1) \<and>
   (v \<noteq> 0 \<and> block_timestamp e < t \<and> n \<noteq> 0 \<and> vaultCount s \<noteq> - 1 \<longrightarrow>
      map_sum id snd (createVault e v t m n s) = Inr (vaultCount s + 1) \<and>
      vaultCount s < vaultCount s + 1 \<and>
      vaultExists (vaultCount s + 1) s = Some VaultDoesNotExist \<and>
      vaultCount (exec e (CreateVault v t m n) s) = vaultCount s + 1 \<and>
      vault_id (vaults (exec e (CreateVault v t m n) s) (vaultCount s + 1)) = vaultCount s + 1 \<and>
      stagesUnlocked (vaults (exec e (CreateVault v t m n) s) (vaultCount s + 1)) = 0 \<and>
      \<not> emergencyUnlocked (vaults (exec e (CreateVault v t m n) s) (vaultCount s + 1)) \<and>
      isActive (vaults (exec e (CreateVault v t m n) s) (vaultCount s + 1)))"
proof -
  have fresh: "vaultCount s < vaultCount s + 1" if "vaultCount s \<noteq> - 1"
    using unat_Suc_word(2) [OF that] by (simp add: word_less_nat_alt)
  show ?thesis
    using fresh
    by (auto simp: createVault_def checked_add_one transact_def word_neq_0_conv not_less
        vaultExists_def)
qed

theorem createVault_outcome_witness:
  "(100::uint256) \<noteq> 0 \<and> block_timestamp (demo_env alice 1000) < 2000 \<and> (2::uint256) \<noteq> 0 \<and>
   vaultCount init \<noteq> - 1 \<and>
   map_sum id snd (createVault (demo_env alice 1000) 100 2000 ONE_TIME 2 init) = Inr 1 \<and>
   vaultCount demo_created = 1 \<and>
   vault_id (vaults demo_created 1) = 1 \<and>
   stagesUnlocked (vaults demo_created 1) = 0 \<and>
   \<not> emergencyUnlocked (vaults demo_created 1) \<and>
   isActive (vaults demo_created 1)"
proof -
  have h: "(100::uint256) \<noteq> 0 \<and> block_timestamp (demo_env alice 1000) < 2000 \<and>
      (2::uint256) \<noteq> 0 \<and> vaultCount init \<noteq> - 1"
    by (simp add: demo_env_def init_def)
  have z: "vaultCount init + 1 = 1" by (simp add: init_def)
  from createVault_outcome [of "demo_env alice 1000" 100 2000 ONE_TIME 2 init] h
  show ?thesis unfolding demo_created_def z by blast
qed

text \<open>
  The claim as first stated fails: with no deposit and an unlock time 500 that is not
  after the block's time 1000, the call does not end in "Unlock time must be in future".
\<close>

theorem createVault_zero_deposit_counterexample:
  "\<not> block_timestamp (demo_env alice 1000) < 500 \<and>
   createVault (demo_env alice 1000) 0 500 STAGED 1 init = Inl MustDepositETH \<and>
   createVault (demo_env alice 1000) 0 500 STAGED 1 init \<noteq> Inl UnlockTimeMustBeInFuture"
  by (simp add: demo_env_def createVault_def)

subsection \<open>C7: emergency unlock\<close>

text \<open>
  C7, as amended. \<open>emergencyUnlock\<close> returns exactly when the vault exists and is
  active, the caller is its creator and it is not yet emergency-unlocked; it then sets
  \<open>emergencyUnlocked\<close> and \<open>stagesUnlocked = TOTAL_STAGES\<close>. After that, whatever
  calls come in between, every further \<open>emergencyUnlock\<close> of the vault reverts and
  leaves the state as it was: with "Already emergency unlocked" when the creator calls,
  with "Not vault creator" when anybody else does.
\<close>

theorem emergencyUnlock_once:
  "((\<exists>s1. emergencyUnlock e vaultId s = Inr (s1, ())) \<longleftrightarrow>
      vaultExists vaultId s = None \<and> creator (vaults s vaultId) = msg_sender e \<and>
      \<not> emergencyUnlocked (vaults s vaultId)) \<and>
   (emergencyUnlock e vaultId s = Inr (s', ()) \<longrightarrow>
      emergencyUnlocked (vaults s' vaultId) \<and>
      stagesUnlocked (vaults s' vaultId) = TOTAL_STAGES \<and>
      transact (emergencyUnlock e' vaultId) (run cs s') =
        (run cs s', Inl (if msg_sender e' = msg_sender e then AlreadyEmergencyUnlocked
                         else NotVaultCreator)))"
proof (intro conjI impI)
  show "(\<exists>s1. emergencyUnlock e vaultId s = Inr (s1, ())) \<longleftrightarrow>
      vaultExists vaultId s = None \<and> creator (vaults s vaultId) = msg_sender e \<and>
      \<not> emergencyUnlocked (vaults s vaultId)"
    by (auto simp: emergencyUnlock_def onlyCreator_def split: option.splits)
next
  assume ok: "emergencyUnlock e vaultId s = Inr (s', ())"
  note f = emergencyUnlock_Inr [OF ok]
  from f show u: "emergencyUnlocked (vaults s' vaultId)" by simp
  from f show "stagesUnlocked (vaults s' vaultId) = TOTAL_STAGES" by simp
  from f have x: "vaultExists vaultId s' = None" by (simp add: vaultExists_None_iff)
  from f have c: "creator (vaults s' vaultId) = msg_sender e" by simp
  from run_keeps_unlocked [OF x u, of cs] c
  show "transact (emergencyUnlock e' vaultId) (run cs s') =
        (run cs s', Inl (if msg_sender e' = msg_sender e then AlreadyEmergencyUnlocked
                         else NotVaultCreator))"
    by (auto simp: transact_def emergencyUnlock_def onlyCreator_def)
qed

theorem emergencyUnlock_once_witness:
  "emergencyUnlock (demo_env alice 1002) 1 demo_written = Inr (demo_unlocked, ()) \<and>
   emergencyUnlocked (vaults demo_unlocked 1) \<and>
   stagesUnlocked (vaults demo_unlocked 1) = TOTAL_STAGES \<and>
   transact (emergencyUnlock (demo_env alice 4000) 1)
       (run [(demo_env bob 3000, ClaimInheritance 1)] demo_unlocked) =
     (run [(demo_env bob 3000, ClaimInheritance 1)] demo_unlocked, Inl AlreadyEmergencyUnlocked) \<and>
   transact (emergencyUnlock (demo_env carol 4000) 1)
       (run [(demo_env bob 3000, ClaimInheritance 1)] demo_unlocked) =
     (run [(demo_env bob 3000, ClaimInheritance 1)] demo_unlocked, Inl NotVaultCreator)"
proof -
  have "snd (transact (emergencyUnlock (demo_env alice 1002) 1) demo_written) = Inr ()"
    by (simp add: demo_defs)
  from transact_Inr [OF this]
  have ok: "emergencyUnlock (demo_env alice 1002) 1 demo_written = Inr (demo_unlocked, ())"
    by (simp add: demo_unlocked_def)
  have a: "msg_sender (demo_env alice 4000) = msg_sender (demo_env alice 1002)"
    by (simp add: demo_env_def)
  have c: "msg_sender (demo_env carol 4000) \<noteq> msg_sender (demo_env alice 1002)"
    by (simp add: demo_env_def alice_def carol_def)
  from emergencyUnlock_once [of "demo_env alice 1002" 1 demo_written demo_unlocked
      "demo_env alice 4000" "[(demo_env bob 3000, ClaimInheritance 1)]"]
    emergencyUnlock_once [of "demo_env alice 1002" 1 demo_written demo_unlocked
      "demo_env carol 4000" "[(demo_env bob 3000, ClaimInheritance 1)]"]
    ok a c
  show ?thesis by simp
qed

text \<open>
  The claim as first stated fails: after the creator's unlock, the second call, made
  by \<open>carol\<close>, does not end in "Already emergency unlocked".
\<close>

theorem emergencyUnlock_by_stranger_counterexample:
  "snd (transact (emergencyUnlock (demo_env alice 1002) 1) demo_written) = Inr () \<and>
   snd (transact (emergencyUnlock (demo_env carol 1003) 1) demo_unlocked) = Inl NotVaultCreator \<and>
   snd (transact (emergencyUnlock (demo_env carol 1003) 1) demo_unlocked)
     \<noteq> Inl AlreadyEmergencyUnlocked"
  by (simp add: demo_defs demo_unlocked_def)

subsection \<open>C8: a failed claim changes nothing\<close>

text \<open>
  C8. Every call of \<open>claimInheritance\<close> ends in the failure its condition gives and
  leaves the whole state, with \<open>stagesUnlocked\<close> and every slot's \<open>totalClaimed\<close>,
  exactly as it was before the call: "Vault does not exist" for a vault id that is 0
  or above the vault counter; "Vault is not active" for an assigned vault whose
  \<open>isActive\<close> is false; "No stages unlocked yet" for an active vault that is not
  emergency-unlocked before its \<open>firstUnlockTime\<close>; and "Not a beneficiary" in every
  other case, where the stages the call had already stored are undone. The failures
  "Nothing to claim" and "Transfer failed" lie behind the match and do not arise.
\<close>

theorem claimInheritance_failure_rolls_back:
  "transact (claimInheritance e vaultId) s =
     (s, Inl (if \<not> (0 < vaultId \<and> vaultId \<le> vaultCount s) then VaultDoesNotExist
              else if \<not> isActive (vaults s vaultId) then VaultIsNotActive
              else if \<not> emergencyUnlocked (vaults s vaultId) \<and>
                      block_timestamp e < firstUnlockTime (vaults s vaultId)
                then NoStagesUnlockedYet
              else NotABeneficiary))"
proof (cases "vaultExists vaultId s")
  case (Some err)
  then show ?thesis
    by (auto simp: transact_def claimInheritance_def vaultExists_def split: if_splits)
next
  case None
  then have ex: "0 < vaultId \<and> vaultId \<le> vaultCount s \<and> isActive (vaults s vaultId)"
    by (simp add: vaultExists_None_iff)
  obtain c where c: "getCurrentStage e vaultId s = Inr c"
    using getCurrentStage_value [of e vaultId s] by blast
  show ?thesis
  proof (cases "c = 0")
    case True
    with c have z: "\<not> emergencyUnlocked (vaults s vaultId) \<and>
        block_timestamp e < firstUnlockTime (vaults s vaultId)"
      by (simp add: getCurrentStage_zero_iff [symmetric])
    from None c True have "claimInheritance e vaultId s = Inl NoStagesUnlockedYet"
      by (simp add: claimInheritance_def)
    with ex z show ?thesis by (simp add: transact_def)
  next
    case False
    then have pos: "0 < c" by (simp add: word_neq_0_conv)
    from False c have nz: "\<not> (\<not> emergencyUnlocked (vaults s vaultId) \<and>
        block_timestamp e < firstUnlockTime (vaults s vaultId))"
      by (simp add: getCurrentStage_zero_iff [symmetric])
    from claimInheritance_positive_stage [OF None c pos] ex nz
    show ?thesis by (simp add: transact_def)
  qed
qed

text \<open>
  One call for each condition. In the last, at time 3000 on the written vault, the
  claim first stores 4 unlocked stages and then fails; the state after the call is the
  one before, with no stage unlocked.
\<close>

theorem claimInheritance_failure_rolls_back_witness:
  "transact (claimInheritance (demo_env bob 3000) 0) demo_written =
     (demo_written, Inl VaultDoesNotExist) \<and>
   transact (claimInheritance (demo_env bob 3000) 2) demo_written =
     (demo_written, Inl VaultDoesNotExist) \<and>
   transact (claimInheritance (demo_env bob 3000) 1) demo_inactive =
     (demo_inactive, Inl VaultIsNotActive) \<and>
   transact (claimInheritance (demo_env bob 1500) 1) demo_written =
     (demo_written, Inl NoStagesUnlockedYet) \<and>
   stagesUnlocked (vaults demo_written 1) = 0 \<and>
   map_sum id (\<lambda>s1. stagesUnlocked (vaults s1 1))
     (updateStages (demo_env bob 3000) 1 4 demo_written) = Inr 4 \<and>
   transact (claimInheritance (demo_env bob 3000) 1) demo_written =
     (demo_written, Inl NotABeneficiary)"
proof -
  have w: "vaultCount demo_written = 1" "isActive (vaults demo_written 1)"
    "\<not> emergencyUnlocked (vaults demo_written 1)"
    "firstUnlockTime (vaults demo_written 1) = 2000"
    "stagesUnlocked (vaults demo_written 1) = 0"
    by (simp_all add: demo_defs)
  have i: "vaultCount demo_inactive = 1" "\<not> isActive (vaults demo_inactive 1)"
    by (simp_all add: demo_inactive_def demo_defs)
  have t: "block_timestamp (demo_env bob 3000) = 3000" "block_timestamp (demo_env bob 1500) = 1500"
    by (simp_all add: demo_env_def)
  have u: "map_sum id (\<lambda>s1. stagesUnlocked (vaults s1 1))
     (updateStages (demo_env bob 3000) 1 4 demo_written) = Inr 4"
    by (simp add: demo_defs updateStages_def)
  have a0: "transact (claimInheritance (demo_env bob 3000) 0) demo_written =
      (demo_written, Inl VaultDoesNotExist)"
    using claimInheritance_failure_rolls_back [of "demo_env bob 3000" 0 demo_written]
    by simp
  have n21: "\<not> (2::uint256) \<le> 1" by (simp add: word_le_nat_alt)
  have a2: "transact (claimInheritance (demo_env bob 3000) 2) demo_written =
      (demo_written, Inl VaultDoesNotExist)"
    using claimInheritance_failure_rolls_back [of "demo_env bob 3000" 2 demo_written] n21
    by (simp add: w)
  have a1: "transact (claimInheritance (demo_env bob 3000) 1) demo_inactive =
      (demo_inactive, Inl VaultIsNotActive)"
    using claimInheritance_failure_rolls_back [of "demo_env bob 3000" 1 demo_inactive]
    by (simp add: i)
  have a3: "transact (claimInheritance (demo_env bob 1500) 1) demo_written =
      (demo_written, Inl NoStagesUnlockedYet)"
    using claimInheritance_failure_rolls_back [of "demo_env bob 1500" 1 demo_written]
    by (simp add: w t)
  have a4: "transact (claimInheritance (demo_env bob 3000) 1) demo_written =
      (demo_written, Inl NotABeneficiary)"
    using claimInheritance_failure_rolls_back [of "demo_env bob 3000" 1 demo_written]
    by (simp add: w t)
  from a0 a2 a1 a3 a4 w(5) u show ?thesis by blast
qed

subsection \<open>C9: no claim succeeds\<close>

text \<open>
  C9. In every state, for every vault id and every caller: \<open>claimInheritance\<close> fails;
  the matching function returns no match; a claim leaves the state as it is; no call
  lowers the contract's balance; in every reachable state every slot's
  \<open>totalClaimed\<close> is 0; and \<open>checkInheritance\<close>, where the vault exists and is active,
  returns \<open>isBeneficiary = False\<close> with both amounts 0.
\<close>

theorem claimInheritance_never_succeeds:
  "(\<exists>err. claimInheritance e vaultId s = Inl err) \<and>
   findBeneficiaryAndCalculateClaim e vaultId a s = Inr (False, 0, 0) \<and>
   exec e (ClaimInheritance vaultId) s = s \<and>
   balance s \<le> balance (exec e' c s) \<and>
   (reachable s \<longrightarrow> totalClaimed (beneficiaries s v i) = 0) \<and>
   checkInheritance e vaultId s =
     (case vaultExists vaultId s of Some err \<Rightarrow> Inl err | None \<Rightarrow> Inr (False, 0, 0))"
  using claimInheritance_fails [of e vaultId s] exec_claim [of e vaultId s]
    exec_balance_mono [of s e' c] reachable_totalClaimed [of s v i]
  by (simp add: findBeneficiary_none checkInheritance_def split: option.split)

theorem claimInheritance_never_succeeds_witness:
  "reachable demo_unlocked \<and>
   claimInheritance (demo_env bob 3000) 1 demo_unlocked = Inl NotABeneficiary \<and>
   findBeneficiaryAndCalculateClaim (demo_env bob 3000) 1 bob demo_unlocked = Inr (False, 0, 0) \<and>
   exec (demo_env bob 3000) (ClaimInheritance 1) demo_unlocked = demo_unlocked \<and>
   totalClaimed (beneficiaries demo_unlocked 1 0) = 0 \<and>
   checkInheritance (demo_env bob 3000) 1 demo_unlocked = Inr (False, 0, 0)"
proof -
  have x: "vaultExists 1 demo_unlocked = None"
    by (simp add: demo_defs demo_unlocked_def)
  have n: "claimInheritance (demo_env bob 3000) 1 demo_unlocked = Inl NotABeneficiary"
    by (simp add: demo_defs demo_unlocked_def claim_defs)
  from claimInheritance_never_succeeds [of "demo_env bob 3000" 1 demo_unlocked bob
      "demo_env bob 3000" "ClaimInheritance 1" 1 0] reachable_demo_unlocked x n
  show ?thesis by simp
qed

subsection \<open>C10: unassigned and inactive vaults\<close>

text \<open>
  C10. For a vault id that is 0 or above the vault counter, and also for an assigned
  id whose vault has \<open>isActive = False\<close>, \<open>getVault\<close> and every other function that
  takes a vault id (\<open>addBeneficiary\<close>, \<open>emergencyUnlock\<close>, \<open>claimInheritance\<close>,
  \<open>checkInheritance\<close>, \<open>getEncryptedBeneficiary\<close>) fail: with "Vault does not exist"
  in the first case and "Vault is not active" in the second. So \<open>getVault\<close> returns no
  data for an inactive vault. (\<open>createVault\<close>, \<open>getCreatorVaults\<close> and
  \<open>getBeneficiaryVaults\<close> take no vault id and have no such check.)
\<close>

theorem inactive_or_unassigned_vault_rejected:
  assumes "vaultId = 0 \<or> vaultCount s < vaultId \<or> \<not> isActive (vaults s vaultId)"
    and "err = (if vaultId = 0 \<or> vaultCount s < vaultId then VaultDoesNotExist
                else VaultIsNotActive)"
  shows "getVault vaultId s = Inl err \<and>
         addBeneficiary e vaultId i a b pa pb s = Inl err \<and>
         emergencyUnlock e vaultId s = Inl err \<and>
         claimInheritance e vaultId s = Inl err \<and>
         checkInheritance e vaultId s = Inl err \<and>
         getEncryptedBeneficiary e vaultId i s = Inl err"
proof -
  from assms have "vaultExists vaultId s = Some err"
    by (auto simp: vaultExists_def word_neq_0_conv not_le)
  then show ?thesis
    by (simp add: getVault_def addBeneficiary_def emergencyUnlock_def claimInheritance_def
        checkInheritance_def getEncryptedBeneficiary_def)
qed

text \<open>Vault 1 of \<open>demo_inactive\<close> is assigned and inactive; the ids 2 and 0 are unassigned.\<close>

theorem inactive_or_unassigned_vault_rejected_witness:
  "vaultCount demo_inactive = 1 \<and> \<not> isActive (vaults demo_inactive 1) \<and>
   getVault 1 demo_inactive = Inl VaultIsNotActive \<and>
   addBeneficiary (demo_env alice 1001) 1 0 11 22 [] [] demo_inactive = Inl VaultIsNotActive \<and>
   emergencyUnlock (demo_env alice 1001) 1 demo_inactive = Inl VaultIsNotActive \<and>
   claimInheritance (demo_env alice 1001) 1 demo_inactive = Inl VaultIsNotActive \<and>
   checkInheritance (demo_env alice 1001) 1 demo_inactive = Inl VaultIsNotActive \<and>
   getEncryptedBeneficiary (demo_env alice 1001) 1 0 demo_inactive = Inl VaultIsNotActive \<and>
   getVault 2 demo_inactive = Inl VaultDoesNotExist \<and>
   getVault 0 demo_inactive = Inl VaultDoesNotExist"
proof -
  have c: "vaultCount demo_inactive = 1" and n: "\<not> isActive (vaults demo_inactive 1)"
    by (simp_all add: demo_inactive_def demo_defs)
  have h1: "(1::uint256) = 0 \<or> vaultCount demo_inactive < 1 \<or> \<not> isActive (vaults demo_inactive 1)"
    using n by simp
  have e1: "VaultIsNotActive = (if (1::uint256) = 0 \<or> vaultCount demo_inactive < 1
      then VaultDoesNotExist else VaultIsNotActive)"
    using c by simp
  have h2: "(2::uint256) = 0 \<or> vaultCount demo_inactive < 2 \<or> \<not> isActive (vaults demo_inactive 2)"
    using c by simp
  have e2: "VaultDoesNotExist = (if (2::uint256) = 0 \<or> vaultCount demo_inactive < 2
      then VaultDoesNotExist else VaultIsNotActive)"
    using c by simp
  have h0: "(0::uint256) = 0 \<or> vaultCount demo_inactive < 0 \<or> \<not> isActive (vaults demo_inactive 0)"
    by simp
  have e0: "VaultDoesNotExist = (if (0::uint256) = 0 \<or> vaultCount demo_inactive < 0
      then VaultDoesNotExist else VaultIsNotActive)"
    by simp
  from inactive_or_unassigned_vault_rejected [OF h1 e1, of "demo_env alice 1001" 0 11 22 "[]" "[]"]
    inactive_or_unassigned_vault_rejected [OF h2 e2, of "demo_env alice 1001" 0 11 22 "[]" "[]"]
    inactive_or_unassigned_vault_rejected [OF h0 e0, of "demo_env alice 1001" 0 11 22 "[]" "[]"]
    c n
  show ?thesis by simp
qed

end
